theory Spec2Isabelle
  imports Complex_Main "HOL-Library.Sublist" "HOL-Library.State_Monad"
begin

section \<open>The host: ECMAScript dates\<close>

text \<open>
  \<^verbatim>\<open>Motel.js\<close> stores three \<^verbatim>\<open>Date\<close> objects and reads them through
  \<^verbatim>\<open>getFullYear\<close>, \<^verbatim>\<open>getMonth\<close>, \<^verbatim>\<open>getDate\<close> and \<^verbatim>\<open>getTime\<close>. A valid
  \<^verbatim>\<open>Date\<close> is its time value: an integral number of milliseconds since
  1970-01-01T00:00:00Z, of magnitude at most 8.64e15. The functions below are the
  ones of ECMA-262 (section "Time Values and Time Range" and following), with their names.
  Invalid dates (time value NaN) do not occur in the script: its three date
  literals are well-formed and \<^verbatim>\<open>new Date()\<close> is always valid.
\<close>

type_synonym Date = int

definition valid_time :: "Date \<Rightarrow> bool" where
  "valid_time t \<longleftrightarrow> \<bar>t\<bar> \<le> 8640000000000000"

definition msPerDay :: int where
  "msPerDay = 86400000"

definition Day :: "int \<Rightarrow> int" where
  "Day t = t div msPerDay"

definition DaysInYear :: "int \<Rightarrow> int" where
  "DaysInYear y =
     (if y mod 4 \<noteq> 0 then 365
      else if y mod 100 \<noteq> 0 then 366
      else if y mod 400 \<noteq> 0 then 365
      else 366)"

definition DayFromYear :: "int \<Rightarrow> int" where
  "DayFromYear y =
     365 * (y - 1970) + (y - 1969) div 4 - (y - 1901) div 100 + (y - 1601) div 400"

definition TimeFromYear :: "int \<Rightarrow> int" where
  "TimeFromYear y = msPerDay * DayFromYear y"

text \<open>
  ECMA-262 specifies \<^verbatim>\<open>YearFromTime(t)\<close> as the largest \<open>y\<close> with
  \<open>TimeFromYear y \<le> t\<close>. The executable form estimates the year from the mean
  length of a Gregorian year (146097 days in 400 years) and corrects the estimate by at
  most one; lemma \<open>YearFromTime_largest\<close> below shows that it is the specified year.
\<close>

definition YearFromDay :: "int \<Rightarrow> int" where
  "YearFromDay d =
     (let y0 = 1970 + (400 * d) div 146097 in
      if DayFromYear (y0 + 1) \<le> d then y0 + 1
      else if DayFromYear y0 \<le> d then y0
      else y0 - 1)"

definition YearFromTime :: "int \<Rightarrow> int" where
  "YearFromTime t = YearFromDay (Day t)"

definition InLeapYear :: "int \<Rightarrow> int" where
  "InLeapYear t = (if DaysInYear (YearFromTime t) = 366 then 1 else 0)"

definition DayWithinYear :: "int \<Rightarrow> int" where
  "DayWithinYear t = Day t - DayFromYear (YearFromTime t)"

text \<open>The month table of ECMA-262, on the day within the year and the leap flag.\<close>

definition month_of :: "int \<Rightarrow> int \<Rightarrow> int" where
  "month_of leap dwy =
     (if dwy < 31 then 0
      else if dwy < 59 + leap then 1
      else if dwy < 90 + leap then 2
      else if dwy < 120 + leap then 3
      else if dwy < 151 + leap then 4
      else if dwy < 181 + leap then 5
      else if dwy < 212 + leap then 6
      else if dwy < 243 + leap then 7
      else if dwy < 273 + leap then 8
      else if dwy < 304 + leap then 9
      else if dwy < 334 + leap then 10
      else 11)"

definition date_of :: "int \<Rightarrow> int \<Rightarrow> int" where
  "date_of leap dwy =
     (let m = month_of leap dwy in
      if m = 0 then dwy + 1
      else if m = 1 then dwy - 30
      else if m = 2 then dwy - 58 - leap
      else if m = 3 then dwy - 89 - leap
      else if m = 4 then dwy - 119 - leap
      else if m = 5 then dwy - 150 - leap
      else if m = 6 then dwy - 180 - leap
      else if m = 7 then dwy - 211 - leap
      else if m = 8 then dwy - 242 - leap
      else if m = 9 then dwy - 272 - leap
      else if m = 10 then dwy - 303 - leap
      else dwy - 333 - leap)"

definition MonthFromTime :: "int \<Rightarrow> int" where
  "MonthFromTime t = month_of (InLeapYear t) (DayWithinYear t)"

definition DateFromTime :: "int \<Rightarrow> int" where
  "DateFromTime t = date_of (InLeapYear t) (DayWithinYear t)"

text \<open>
  What the host supplies: the clock read by \<^verbatim>\<open>new Date()\<close>, the offset of local time
  from UTC at a time value (\<^verbatim>\<open>LocalTZA(t, true)\<close>, in milliseconds) and the
  locale's short date format.
\<close>

record host =
  clock :: Date
  LocalTZA :: "int \<Rightarrow> int"
  toLocaleDateString :: "Date \<Rightarrow> string"

definition LocalTime :: "('a host_scheme) \<Rightarrow> int \<Rightarrow> int" where
  "LocalTime h t = t + LocalTZA h t"

definition getFullYear :: "('a host_scheme) \<Rightarrow> Date \<Rightarrow> int" where
  "getFullYear h t = YearFromTime (LocalTime h t)"

definition getMonth :: "('a host_scheme) \<Rightarrow> Date \<Rightarrow> int" where
  "getMonth h t = MonthFromTime (LocalTime h t)"

definition getDate :: "('a host_scheme) \<Rightarrow> Date \<Rightarrow> int" where
  "getDate h t = DateFromTime (LocalTime h t)"

text \<open>
  \<^verbatim>\<open>new Date("YYYY-MM-DD")\<close>: a date-only ISO string is UTC midnight of that day,
  \<^verbatim>\<open>MakeDate(MakeDay(year, month - 1, day), 0)\<close>.
\<close>

definition days_before_month :: "int \<Rightarrow> int \<Rightarrow> int" where
  "days_before_month y mn =
     [0, 31, 59, 90, 120, 151, 181, 212, 243, 273, 304, 334] ! nat mn
       + (if 2 \<le> mn \<and> DaysInYear y = 366 then 1 else 0)"

definition MakeDay :: "int \<Rightarrow> int \<Rightarrow> int \<Rightarrow> int" where
  "MakeDay year month dt =
     (let ym = year + month div 12; mn = month mod 12
      in DayFromYear ym + days_before_month ym mn + dt - 1)"

definition new_Date_ISO :: "int \<Rightarrow> int \<Rightarrow> int \<Rightarrow> Date" where
  "new_Date_ISO year month day = MakeDay year (month - 1) day * msPerDay"

text \<open>The days of month \<open>m\<close> (from 1) of year \<open>y\<close>: the dates that such a string can name.\<close>

definition DaysInMonth :: "int \<Rightarrow> int \<Rightarrow> int" where
  "DaysInMonth y m =
     (if m = 2 then (if DaysInYear y = 366 then 29 else 28)
      else if m = 4 \<or> m = 6 \<or> m = 9 \<or> m = 11 then 30 else 31)"

section \<open>The host: Number arithmetic\<close>

text \<open>
  A JavaScript Number is an IEEE 754 binary64 value. \<open>fl\<close> rounds a rational to the
  nearest one, ties to the even significand, for results in the normal range (no overflow to
  infinity, no subnormal result): every quotient, product and difference that
  \<^verbatim>\<open>Motel.js\<close> computes on valid dates is zero or of magnitude between 1e-8 and 2e16.
  \<open>binade x\<close> is the exponent \<open>e\<close> with \<open>2 powi e \<le> \<bar>x\<bar> < 2 powi (e + 1)\<close>, and the
  significand has 53 bits.
\<close>

type_synonym number = rat

function floor_log2 :: "int \<Rightarrow> int" where
  "floor_log2 n = (if n < 2 then 0 else 1 + floor_log2 (n div 2))"
  by pat_completeness auto
termination
  by (relation "measure nat") auto

definition binade :: "rat \<Rightarrow> int" where
  "binade x =
     (if 1 \<le> \<bar>x\<bar> then floor_log2 \<lfloor>\<bar>x\<bar>\<rfloor>
      else - (1 + floor_log2 (\<lceil>1 / \<bar>x\<bar>\<rceil> - 1)))"

definition round_ties_even :: "rat \<Rightarrow> int" where
  "round_ties_even x =
     (let n = \<lfloor>x\<rfloor>; r = x - of_int n
      in if r < 1 / 2 then n
         else if 1 / 2 < r then n + 1
         else if even n then n else n + 1)"

definition fl :: "rat \<Rightarrow> number" where
  "fl x =
     (if x = 0 then 0
      else let u = 2 powi (binade x - 52) in of_int (round_ties_even (x / u)) * u)"

definition js_sub :: "number \<Rightarrow> number \<Rightarrow> number" where
  "js_sub a b = fl (a - b)"

definition js_mul :: "number \<Rightarrow> number \<Rightarrow> number" where
  "js_mul a b = fl (a * b)"

definition js_div :: "number \<Rightarrow> number \<Rightarrow> number" where
  "js_div a b = fl (a / b)"

definition Math_abs :: "number \<Rightarrow> number" where
  "Math_abs x = \<bar>x\<bar>"

definition Math_ceil :: "number \<Rightarrow> int" where
  "Math_ceil x = \<lceil>x\<rceil>"

definition getTime :: "Date \<Rightarrow> number" where
  "getTime t = of_int t"

section \<open>The guest record of Motel.js\<close>

record mailing_address =
  street :: string
  city :: string
  postalCode :: string

record motel_customer =
  name :: string
  birthDate :: Date
  gender :: string
  roomPreferences :: "string list"
  paymentMethod :: string
  mailingAddress :: mailing_address
  phoneNumber :: string
  checkInDate :: Date
  checkOutDate :: Date

definition motelCustomer :: motel_customer where
  "motelCustomer =
     \<lparr> name = ''Steven Norris'',
       birthDate = new_Date_ISO 1994 7 2,
       gender = ''Male'',
       roomPreferences = [''Double Bed'', ''Pet-Friendly Status''],
       paymentMethod = ''Pennies'',
       mailingAddress =
         \<lparr> street = ''123 Duck St'', city = ''St. John's'', postalCode = ''A5A 1A3'' \<rparr>,
       phoneNumber = ''709-987-6543'',
       checkInDate = new_Date_ISO 2024 4 1,
       checkOutDate = new_Date_ISO 2024 4 15 \<rparr>"

text \<open>\<^verbatim>\<open>toString() { return `${this.street}, ${this.city}, ${this.postalCode}`; }\<close>\<close>

definition toString :: "mailing_address \<Rightarrow> string" where
  "toString a = street a @ '', '' @ city a @ '', '' @ postalCode a"

text \<open>
  \<^verbatim>\<open>age\<close>: \<^verbatim>\<open>today\<close> is \<^verbatim>\<open>new Date()\<close>, the host's clock. The years, months and
  days are integers of small magnitude, on which Number arithmetic is exact.
\<close>

definition age :: "('a host_scheme) \<Rightarrow> motel_customer \<Rightarrow> int" where
  "age h this =
     (let today = clock h;
          age0 = getFullYear h today - getFullYear h (birthDate this);
          m = getMonth h today - getMonth h (birthDate this)
      in if m < 0 \<or> (m = 0 \<and> getDate h today < getDate h (birthDate this))
         then age0 - 1
         else age0)"

text \<open>
  \<^verbatim>\<open>durationOfStay\<close>: the subtraction, the three products of the divisor and the
  division are Number operations, each rounded.
\<close>

definition durationOfStay :: "motel_customer \<Rightarrow> int" where
  "durationOfStay this =
     (let diffTime = Math_abs (js_sub (getTime (checkOutDate this)) (getTime (checkInDate this)))
      in Math_ceil (js_div diffTime (js_mul (js_mul (js_mul 1000 60) 60) 24)))"

subsection \<open>The description\<close>

text \<open>
  A template literal applies \<^verbatim>\<open>ToString\<close> to each substitution. For an integral
  Number of magnitude below 1e21 that is its decimal numeral, with a minus sign when
  negative.
\<close>

definition digit_char :: "nat \<Rightarrow> char" where
  "digit_char d = char_of (48 + d)"

fun digits :: "nat \<Rightarrow> string" where
  "digits n = (if n < 10 then [digit_char n] else digits (n div 10) @ [digit_char (n mod 10)])"

definition Number_toString :: "int \<Rightarrow> string" where
  "Number_toString i = (if i < 0 then CHR ''-'' # digits (nat (- i)) else digits (nat i))"

text \<open>\<^verbatim>\<open>Array.prototype.join\<close> on an array of strings.\<close>

fun join :: "string \<Rightarrow> string list \<Rightarrow> string" where
  "join sep [] = []"
| "join sep [x] = x"
| "join sep (x # y # ys) = x @ sep @ join sep (y # ys)"

definition customerDescription :: "('a host_scheme) \<Rightarrow> motel_customer \<Rightarrow> string" where
  "customerDescription h c =
     ''Hello! I'm '' @ name c
     @ '', a '' @ Number_toString (age h c)
     @ '' year old '' @ gender c
     @ '' who prefers rooms with '' @ join '' and '' (roomPreferences c)
     @ ''. You can reach me at '' @ phoneNumber c
     @ ''. My mailing address is '' @ toString (mailingAddress c)
     @ ''. I'll be staying from '' @ toLocaleDateString h (checkInDate c)
     @ '' to '' @ toLocaleDateString h (checkOutDate c)
     @ '', which is a duration of '' @ Number_toString (durationOfStay c)
     @ '' days.''"

subsection \<open>The script\<close>

text \<open>
  The state the script runs in: the object bound to \<^verbatim>\<open>motelCustomer\<close>, the lines
  written to the console, and the page, as the text content of each element that has an
  id. The object is mutable: every statement that touches it is a step on this state.
\<close>

datatype js_error = TypeError

record script_state =
  customer :: motel_customer
  console :: "string list"
  elements :: "string \<rightharpoonup> string"

text \<open>
  Reading a property of the object, \<^verbatim>\<open>this.birthDate\<close> or \<^verbatim>\<open>motelCustomer.name\<close>, and
  of its nested address, \<^verbatim>\<open>this.street\<close> inside \<^verbatim>\<open>toString\<close>; and what an assignment
  to a property, \<^verbatim>\<open>this.name = v\<close>, would be. \<^verbatim>\<open>Motel.js\<close> contains reads only.
\<close>

definition read_customer :: "(motel_customer \<Rightarrow> 'a) \<Rightarrow> (script_state, 'a) state" where
  "read_customer field = do {
     s \<leftarrow> State_Monad.get;
     State_Monad.return (field (customer s))
   }"

definition read_address :: "(mailing_address \<Rightarrow> 'a) \<Rightarrow> (script_state, 'a) state" where
  "read_address field = do {
     address \<leftarrow> read_customer mailingAddress;
     State_Monad.return (field address)
   }"

definition assign_customer :: "(motel_customer \<Rightarrow> motel_customer) \<Rightarrow> (script_state, unit) state" where
  "assign_customer change = State_Monad.update (\<lambda>s. s\<lparr> customer := change (customer s) \<rparr>)"

text \<open>
  The three methods and the template literal as the script executes them, statement by
  statement, on the state: lines 23 to 26, 37 to 45, 48 to 53 and 57 to 65 of
  \<^verbatim>\<open>Motel.js\<close>. In \<^verbatim>\<open>age\<close> the variable that \<^verbatim>\<open>age--\<close> decrements is the local
  \<^verbatim>\<open>let age\<close>, not a property; the right operand of \<^verbatim>\<open>||\<close> and of \<^verbatim>\<open>&&\<close>, with
  its read of \<^verbatim>\<open>this.birthDate\<close>, is evaluated only when the left one does not decide.
  The host's functions that the bodies call (the \<^verbatim>\<open>Date\<close> getters,
  \<^verbatim>\<open>toLocaleDateString\<close>, \<^verbatim>\<open>join\<close>, \<^verbatim>\<open>Math.abs\<close>, \<^verbatim>\<open>Math.ceil\<close>) only read
  their receiver and arguments, by ECMA-262.
  The functions \<open>toString\<close>, \<open>age\<close>, \<open>durationOfStay\<close> and \<open>customerDescription\<close>
  above are the values that these calls return (lemmas \<open>run_toString_call\<close> to
  \<open>run_customerDescription_eval\<close> below).
\<close>

definition toString_call :: "(script_state, string) state" where
  "toString_call = do {
     this_street \<leftarrow> read_address street;
     this_city \<leftarrow> read_address city;
     this_postalCode \<leftarrow> read_address postalCode;
     State_Monad.return (this_street @ '', '' @ this_city @ '', '' @ this_postalCode)
   }"

definition age_call :: "('a host_scheme) \<Rightarrow> (script_state, int) state" where
  "age_call h = do {
     let today = clock h;
     born \<leftarrow> read_customer birthDate;
     let age0 = getFullYear h today - getFullYear h born;
     born \<leftarrow> read_customer birthDate;
     let m = getMonth h today - getMonth h born;
     not_yet \<leftarrow>
       (if m < 0 then State_Monad.return True
        else if m = 0 then do {
          born \<leftarrow> read_customer birthDate;
          State_Monad.return (getDate h today < getDate h born)
        }
        else State_Monad.return False);
     State_Monad.return (if not_yet then age0 - 1 else age0)
   }"

definition durationOfStay_call :: "(script_state, int) state" where
  "durationOfStay_call = do {
     checkOut \<leftarrow> read_customer checkOutDate;
     checkIn \<leftarrow> read_customer checkInDate;
     let diffTime = Math_abs (js_sub (getTime checkOut) (getTime checkIn));
     State_Monad.return (Math_ceil (js_div diffTime (js_mul (js_mul (js_mul 1000 60) 60) 24)))
   }"

definition customerDescription_eval :: "('a host_scheme) \<Rightarrow> (script_state, string) state" where
  "customerDescription_eval h = do {
     the_name \<leftarrow> read_customer name;
     the_age \<leftarrow> age_call h;
     the_gender \<leftarrow> read_customer gender;
     preferences \<leftarrow> read_customer roomPreferences;
     phone \<leftarrow> read_customer phoneNumber;
     address \<leftarrow> toString_call;
     checkIn \<leftarrow> read_customer checkInDate;
     checkOut \<leftarrow> read_customer checkOutDate;
     duration \<leftarrow> durationOfStay_call;
     State_Monad.return
      (''Hello! I'm '' @ the_name
       @ '', a '' @ Number_toString the_age
       @ '' year old '' @ the_gender
       @ '' who prefers rooms with '' @ join '' and '' preferences
       @ ''. You can reach me at '' @ phone
       @ ''. My mailing address is '' @ address
       @ ''. I'll be staying from '' @ toLocaleDateString h checkIn
       @ '' to '' @ toLocaleDateString h checkOut
       @ '', which is a duration of '' @ Number_toString duration
       @ '' days.'')
   }"

text \<open>
  The two output steps. \<^verbatim>\<open>document.getElementById\<close> yields \<^verbatim>\<open>null\<close> for an id the
  page lacks, and assigning a property of \<^verbatim>\<open>null\<close> throws a \<^verbatim>\<open>TypeError\<close>, which
  ends the script.
\<close>

definition console_log :: "string \<Rightarrow> script_state \<Rightarrow> script_state" where
  "console_log line s = s\<lparr> console := console s @ [line] \<rparr>"

definition getElementById :: "string \<Rightarrow> script_state \<Rightarrow> string option" where
  "getElementById ident s = (case elements s ident of None \<Rightarrow> None | Some text \<Rightarrow> Some ident)"

definition set_textContent :: "string option \<Rightarrow> string \<Rightarrow> script_state \<Rightarrow> js_error + script_state" where
  "set_textContent el v s =
     (case el of
        None \<Rightarrow> Inl TypeError
      | Some ident \<Rightarrow> Inr (s\<lparr> elements := (elements s)(ident \<mapsto> v) \<rparr>))"

text \<open>
  The top level of the file, in order: the object literal, the description, the console
  write, the page write. The result is the error thrown, if any, and the state reached.
\<close>

definition script :: "('a host_scheme) \<Rightarrow> string list \<Rightarrow> (string \<rightharpoonup> string) \<Rightarrow> js_error option \<times> script_state" where
  "script h console0 page0 =
     (let s0 = \<lparr> customer = motelCustomer, console = console0, elements = page0 \<rparr>;
          (description, s1) = run_state (customerDescription_eval h) s0;
          s2 = console_log description s1
      in case set_textContent (getElementById ''customerInfo'' s2) description s2 of
           Inl e \<Rightarrow> (Some e, s2)
         | Inr s3 \<Rightarrow> (None, s3))"

subsection \<open>A sample host\<close>

text \<open>
  A host in a zone at a fixed offset from UTC, with the \<^verbatim>\<open>en-US\<close> short date format
  (month/day/year, for years of the common era), at a given reading of the clock.
\<close>

definition fixed_zone_host :: "int \<Rightarrow> Date \<Rightarrow> host" where
  "fixed_zone_host offset now =
     \<lparr> clock = now,
       LocalTZA = (\<lambda>t. offset),
       toLocaleDateString = (\<lambda>t.
         Number_toString (MonthFromTime (t + offset) + 1) @ ''/''
         @ Number_toString (DateFromTime (t + offset)) @ ''/''
         @ Number_toString (YearFromTime (t + offset))) \<rparr>"

section \<open>What the specification says\<close>

text \<open>
  The day count of the specification, in exact arithmetic: the ceiling of the absolute
  difference in milliseconds over the milliseconds of a day.
\<close>

definition spec_days :: "Date \<Rightarrow> Date \<Rightarrow> int" where
  "spec_days checkIn checkOut = \<lceil>of_int \<bar>checkOut - checkIn\<bar> / (of_int msPerDay :: rat)\<rceil>"

text \<open>
  A template in the notation of the specification: \<open>{key}\<close> stands for the value bound
  to \<open>key\<close>, every other character for itself.
\<close>

definition lookup_field :: "(string \<times> string) list \<Rightarrow> string \<Rightarrow> string" where
  "lookup_field env k = (case map_of env k of None \<Rightarrow> [] | Some v \<Rightarrow> v)"

function fill :: "(string \<times> string) list \<Rightarrow> string \<Rightarrow> string" where
  "fill env [] = []"
| "fill env (c # cs) =
     (if c = CHR ''{''
      then lookup_field env (takeWhile (\<lambda>x. x \<noteq> CHR ''}'') cs)
             @ fill env (drop 1 (dropWhile (\<lambda>x. x \<noteq> CHR ''}'') cs))
      else c # fill env cs)"
  by pat_completeness auto
termination
  by (relation "measure (\<lambda>(env, t). length t)")
     (auto simp: less_Suc_eq_le intro: le_trans [OF diff_le_self length_dropWhile_le])

definition spec_template :: string where
  "spec_template =
     ''Hello! I'm {name}, a {age} year old {gender} who prefers rooms with {prefs}. You can reach me at {phone}. My mailing address is {address}. I'll be staying from {checkIn} to {checkOut}, which is a duration of {duration} days.''"

text \<open>Lexicographic order on (month, day) pairs, as the specification's age algorithm uses it.\<close>

definition lex_earlier :: "int \<times> int \<Rightarrow> int \<times> int \<Rightarrow> bool" where
  "lex_earlier a b \<longleftrightarrow> fst a < fst b \<or> (fst a = fst b \<and> snd a < snd b)"

definition spec_age :: "int \<times> int \<times> int \<Rightarrow> int \<times> int \<times> int \<Rightarrow> int" where
  "spec_age today birth =
     (let years = fst today - fst birth
      in if lex_earlier (snd today) (snd birth) then years - 1 else years)"

section \<open>The calendar of the host\<close>

lemma div_bounds:
  fixes a :: int assumes "0 < n"
  shows "n * (a div n) \<le> a" and "a < n * (a div n) + n"
proof -
  have "a = n * (a div n) + a mod n" by simp
  moreover have "0 \<le> a mod n" "a mod n < n" using assms by simp_all
  ultimately show "n * (a div n) \<le> a" "a < n * (a div n) + n" by linarith+
qed

lemma div_succ:
  fixes a n :: int assumes "0 < n"
  shows "(a + 1) div n = (if (a + 1) mod n = 0 then a div n + 1 else a div n)"
proof -
  define q r where "q = (a + 1) div n" and "r = (a + 1) mod n"
  have eq: "a + 1 = n * q + r" and r: "0 \<le> r" "r < n"
    using assms by (simp_all add: q_def r_def)
  show ?thesis
  proof (cases "r = 0")
    case True
    have "a div n = q - 1"
      by (rule int_div_pos_eq [where r = "n - 1"]) (use eq True assms in \<open>simp_all add: algebra_simps\<close>)
    then show ?thesis using True by (simp add: q_def r_def)
  next
    case False
    have "a div n = q"
      by (rule int_div_pos_eq [where r = "r - 1"]) (use eq False r in \<open>simp_all add: algebra_simps\<close>)
    then show ?thesis using False by (simp add: q_def r_def)
  qed
qed

lemma mod_shift:
  fixes y c n :: int assumes "n dvd c"
  shows "(y - c) mod n = 0 \<longleftrightarrow> y mod n = 0"
  using assms by (simp add: mod_eq_0_iff_dvd dvd_diff_left_iff)

lemma mod_coarser:
  fixes y m n :: int assumes "n dvd m" "y mod m = 0"
  shows "y mod n = 0"
  using assms by (auto simp: mod_eq_0_iff_dvd elim: dvd_trans)

lemma DayFromYear_step: "DayFromYear (y + 1) = DayFromYear y + DaysInYear y"
proof -
  have a: "(y + 1 - 1969) div 4 = (y - 1969) div 4 + (if y mod 4 = 0 then 1 else 0)"
    using div_succ [of 4 "y - 1969"] mod_shift [of 4 1968 y] by (simp add: algebra_simps)
  have b: "(y + 1 - 1901) div 100 = (y - 1901) div 100 + (if y mod 100 = 0 then 1 else 0)"
    using div_succ [of 100 "y - 1901"] mod_shift [of 100 1900 y] by (simp add: algebra_simps)
  have c: "(y + 1 - 1601) div 400 = (y - 1601) div 400 + (if y mod 400 = 0 then 1 else 0)"
    using div_succ [of 400 "y - 1601"] mod_shift [of 400 1600 y] by (simp add: algebra_simps)
  show ?thesis
    unfolding DayFromYear_def DaysInYear_def a b c
    using mod_coarser [of 100 400 y] mod_coarser [of 4 100 y] by auto
qed


lemma leap_terms_bounds:
  fixes y a b c :: int
  assumes "4 * a \<le> y - 1969" "y - 1969 < 4 * a + 4"
      and "100 * b \<le> y - 1901" "y - 1901 < 100 * b + 100"
      and "400 * c \<le> y - 1601" "y - 1601 < 400 * c + 400"
  shows "146097 * (y - 1970) - 506 \<le> 400 * (365 * (y - 1970) + a - b + c)"
    and "400 * (365 * (y - 1970) + a - b + c) \<le> 146097 * (y - 1970) + 589"
  using assms by (simp_all add: algebra_simps)

lemma DayFromYear_lower: "146097 * (y - 1970) - 506 \<le> 400 * DayFromYear y"
  unfolding DayFromYear_def
  by (rule leap_terms_bounds(1)) (simp_all add: div_bounds)

lemma DayFromYear_upper: "400 * DayFromYear y \<le> 146097 * (y - 1970) + 589"
  unfolding DayFromYear_def
  by (rule leap_terms_bounds(2)) (simp_all add: div_bounds)

lemma YearFromDay_bounds:
  "DayFromYear (YearFromDay d) \<le> d" "d < DayFromYear (YearFromDay d + 1)"
proof -
  define y0 where "y0 = 1970 + (400 * d) div 146097"
  have a: "146097 * (y0 - 1970) \<le> 400 * d" "400 * d < 146097 * (y0 - 1970) + 146097"
    using div_bounds [of 146097 "400 * d"] unfolding y0_def by simp_all
  have lo: "DayFromYear (y0 - 1) \<le> d"
    using DayFromYear_upper [of "y0 - 1"] a by (simp add: algebra_simps)
  have hi: "d < DayFromYear (y0 + 2)"
    using DayFromYear_lower [of "y0 + 2"] a by (simp add: algebra_simps)
  have Y: "YearFromDay d = (if DayFromYear (y0 + 1) \<le> d then y0 + 1
       else if DayFromYear y0 \<le> d then y0 else y0 - 1)"
    unfolding YearFromDay_def y0_def by (simp add: Let_def)
  show "DayFromYear (YearFromDay d) \<le> d"
    using lo by (simp add: Y)
  show "d < DayFromYear (YearFromDay d + 1)"
    using hi by (simp add: Y add.commute)
qed

lemma DaysInYear_range: "365 \<le> DaysInYear y" "DaysInYear y \<le> 366"
  by (simp_all add: DaysInYear_def)

lemma DayFromYear_strict_mono:
  assumes "y < y'" shows "DayFromYear y < DayFromYear y'"
proof -
  have "DayFromYear y < DayFromYear (y + 1 + int k)" for k
  proof (induction k)
    case 0
    show ?case using DayFromYear_step [of y] DaysInYear_range(1) [of y] by simp
  next
    case (Suc k)
    have "DayFromYear (y + 1 + int (Suc k)) = DayFromYear (y + 1 + int k) + DaysInYear (y + 1 + int k)"
      using DayFromYear_step [of "y + 1 + int k"] by (simp add: algebra_simps)
    then show ?case using Suc DaysInYear_range(1) [of "y + 1 + int k"] by linarith
  qed
  from this [of "nat (y' - y - 1)"] assms show ?thesis by simp
qed

lemma DayFromYear_mono: "y \<le> y' \<Longrightarrow> DayFromYear y \<le> DayFromYear y'"
  using DayFromYear_strict_mono [of y y'] by (cases "y = y'") auto

lemma YearFromDay_greatest:
  assumes "DayFromYear y \<le> d" shows "y \<le> YearFromDay d"
proof (rule ccontr)
  assume "\<not> y \<le> YearFromDay d"
  then have "YearFromDay d + 1 \<le> y" by simp
  then have "DayFromYear (YearFromDay d + 1) \<le> DayFromYear y" by (rule DayFromYear_mono)
  with assms YearFromDay_bounds(2) [of d] show False by linarith
qed

lemma YearFromDay_unique:
  assumes "DayFromYear y \<le> d" "d < DayFromYear (y + 1)"
  shows "YearFromDay d = y"
proof -
  have "y \<le> YearFromDay d" using assms(1) by (rule YearFromDay_greatest)
  moreover have "YearFromDay d \<le> y"
  proof (rule ccontr)
    assume "\<not> YearFromDay d \<le> y"
    then have "y + 1 \<le> YearFromDay d" by simp
    then have "DayFromYear (y + 1) \<le> DayFromYear (YearFromDay d)" by (rule DayFromYear_mono)
    with assms(2) YearFromDay_bounds(1) [of d] show False by linarith
  qed
  ultimately show ?thesis by simp
qed

lemma YearFromDay_mono: "d \<le> d' \<Longrightarrow> YearFromDay d \<le> YearFromDay d'"
  using YearFromDay_bounds(1) [of d] YearFromDay_greatest [of "YearFromDay d" d'] by linarith

lemma TimeFromYear_le_iff: "TimeFromYear y \<le> t \<longleftrightarrow> DayFromYear y \<le> Day t"
proof -
  have "msPerDay * DayFromYear y \<le> t \<longleftrightarrow> DayFromYear y \<le> t div msPerDay"
    using div_bounds [of msPerDay t] mult_left_mono [of "DayFromYear y" "t div msPerDay" msPerDay]
      mult_left_mono [of  "t div msPerDay + 1" "DayFromYear y" msPerDay]
    by (auto simp: msPerDay_def algebra_simps)
  then show ?thesis by (simp add: TimeFromYear_def Day_def)
qed

lemma YearFromTime_largest:
  "TimeFromYear (YearFromTime t) \<le> t \<and> (\<forall>y. TimeFromYear y \<le> t \<longrightarrow> y \<le> YearFromTime t)"
  by (simp add: TimeFromYear_le_iff YearFromTime_def YearFromDay_bounds(1) YearFromDay_greatest)


lemma InLeapYear_cases: "InLeapYear t = 0 \<or> InLeapYear t = 1"
  by (simp add: InLeapYear_def)

lemma DayWithinYear_nonneg: "0 \<le> DayWithinYear t"
  using YearFromDay_bounds(1) [of "Day t"] by (simp add: DayWithinYear_def YearFromTime_def)

lemma month_of_mono:
  assumes "leap = 0 \<or> leap = 1" "a \<le> b"
  shows "month_of leap a \<le> month_of leap b"
  using assms unfolding month_of_def by (elim disjE) (simp_all)

lemma date_of_strict_mono:
  assumes "leap = 0 \<or> leap = 1" "a < b" "month_of leap a = month_of leap b"
  shows "date_of leap a < date_of leap b"
  using assms(2) unfolding date_of_def Let_def assms(3) [symmetric] by simp

lemma month_of_range: "0 \<le> month_of leap a" "month_of leap a \<le> 11"
  by (simp_all add: month_of_def)

lemma date_of_ge_1:
  assumes "leap = 0 \<or> leap = 1" "0 \<le> a"
  shows "1 \<le> date_of leap a"
  using assms unfolding date_of_def month_of_def Let_def
  by (elim disjE) (simp_all split: if_splits)

lemma MonthFromTime_range: "0 \<le> MonthFromTime t" "MonthFromTime t \<le> 11"
  by (simp_all add: MonthFromTime_def month_of_range)

lemma DateFromTime_ge_1: "1 \<le> DateFromTime t"
  unfolding DateFromTime_def
  by (rule date_of_ge_1 [OF InLeapYear_cases DayWithinYear_nonneg])

text \<open>Later days have lexicographically later (year, month, date) triples.\<close>

lemma calendar_order:
  assumes "Day t1 < Day t2"
  shows "YearFromTime t1 < YearFromTime t2
       \<or> (YearFromTime t1 = YearFromTime t2
          \<and> (MonthFromTime t1 < MonthFromTime t2
             \<or> (MonthFromTime t1 = MonthFromTime t2 \<and> DateFromTime t1 < DateFromTime t2)))"
proof (cases "YearFromTime t1 = YearFromTime t2")
  case False
  moreover have "YearFromTime t1 \<le> YearFromTime t2"
    using assms by (simp add: YearFromTime_def YearFromDay_mono)
  ultimately show ?thesis by simp
next
  case True
  then have leap: "InLeapYear t1 = InLeapYear t2"
    by (simp add: InLeapYear_def)
  have dwy: "DayWithinYear t1 < DayWithinYear t2"
    using assms True by (simp add: DayWithinYear_def)
  have "MonthFromTime t1 \<le> MonthFromTime t2"
    unfolding MonthFromTime_def leap
    using InLeapYear_cases dwy by (intro month_of_mono) simp_all
  moreover have "DateFromTime t1 < DateFromTime t2" if "MonthFromTime t1 = MonthFromTime t2"
    using that unfolding MonthFromTime_def DateFromTime_def leap
    by (intro date_of_strict_mono InLeapYear_cases dwy)
  ultimately show ?thesis using True by (cases "MonthFromTime t1 = MonthFromTime t2") auto
qed

text \<open>The day after: the year is the same, or it is the first of January of the next one.\<close>

lemma next_day_year:
  assumes "Day t2 = Day t1 + 1"
  shows "YearFromTime t2 = YearFromTime t1
       \<or> (YearFromTime t2 = YearFromTime t1 + 1 \<and> MonthFromTime t2 = 0 \<and> DateFromTime t2 = 1)"
proof (cases "Day t2 < DayFromYear (YearFromTime t1 + 1)")
  case True
  have "DayFromYear (YearFromTime t1) \<le> Day t2"
    using YearFromDay_bounds(1) [of "Day t1"] assms by (simp add: YearFromTime_def)
  from YearFromDay_unique [OF this True] show ?thesis by (simp add: YearFromTime_def)
next
  case False
  with YearFromDay_bounds(2) [of "Day t1"] assms
  have eq: "Day t2 = DayFromYear (YearFromTime t1 + 1)"
    by (simp add: YearFromTime_def)
  have "Day t2 < DayFromYear (YearFromTime t1 + 1 + 1)"
    unfolding eq by (rule DayFromYear_strict_mono) simp
  with eq have Y: "YearFromTime t2 = YearFromTime t1 + 1"
    unfolding YearFromTime_def [of t2] by (intro YearFromDay_unique) simp_all
  have "DayWithinYear t2 = 0"
    by (simp add: DayWithinYear_def Y eq)
  then show ?thesis
    using Y by (simp add: MonthFromTime_def DateFromTime_def month_of_def date_of_def)
qed

lemma same_day_same_fields:
  assumes "Day t1 = Day t2"
  shows "YearFromTime t1 = YearFromTime t2" "MonthFromTime t1 = MonthFromTime t2"
    "DateFromTime t1 = DateFromTime t2"
  using assms
  by (simp_all add: YearFromTime_def MonthFromTime_def DateFromTime_def InLeapYear_def
      DayWithinYear_def)

text \<open>
  The constructor against the getters: the time value of \<^verbatim>\<open>new Date("YYYY-MM-DD")\<close>
  has, in UTC, the year, the month (from 0) and the day of the string.
\<close>

lemma table_fields:
  fixes leap d m :: int
  assumes "leap = 0 \<or> leap = 1"
    and "1 \<le> d"
    and "d \<le> (if m = 2 then 28 + leap else if m = 4 \<or> m = 6 \<or> m = 9 \<or> m = 11 then 30 else 31)"
    and "m = 1 \<or> m = 2 \<or> m = 3 \<or> m = 4 \<or> m = 5 \<or> m = 6 \<or> m = 7 \<or> m = 8
      \<or> m = 9 \<or> m = 10 \<or> m = 11 \<or> m = 12"
    and "dwy = [0, 31, 59, 90, 120, 151, 181, 212, 243, 273, 304, 334] ! nat (m - 1)
            + (if 2 \<le> m - 1 then leap else 0) + d - 1"
  shows "0 \<le> dwy" "dwy < 365 + leap" "month_of leap dwy = m - 1" "date_of leap dwy = d"
proof -
  from assms(4) have "0 \<le> dwy \<and> dwy < 365 + leap \<and> month_of leap dwy = m - 1 \<and> date_of leap dwy = d"
  proof (elim disjE)
    assume "m = 1" with assms(1,2,3,5) show ?thesis
      by (elim disjE) (simp_all add: month_of_def date_of_def)
  next
    assume "m = 2" with assms(1,2,3,5) show ?thesis
      by (elim disjE) (simp_all add: month_of_def date_of_def)
  next
    assume "m = 3" with assms(1,2,3,5) show ?thesis
      by (elim disjE) (simp_all add: month_of_def date_of_def)
  next
    assume "m = 4" with assms(1,2,3,5) show ?thesis
      by (elim disjE) (simp_all add: month_of_def date_of_def)
  next
    assume "m = 5" with assms(1,2,3,5) show ?thesis
      by (elim disjE) (simp_all add: month_of_def date_of_def)
  next
    assume "m = 6" with assms(1,2,3,5) show ?thesis
      by (elim disjE) (simp_all add: month_of_def date_of_def)
  next
    assume "m = 7" with assms(1,2,3,5) show ?thesis
      by (elim disjE) (simp_all add: month_of_def date_of_def)
  next
    assume "m = 8" with assms(1,2,3,5) show ?thesis
      by (elim disjE) (simp_all add: month_of_def date_of_def)
  next
    assume "m = 9" with assms(1,2,3,5) show ?thesis
      by (elim disjE) (simp_all add: month_of_def date_of_def)
  next
    assume "m = 10" with assms(1,2,3,5) show ?thesis
      by (elim disjE) (simp_all add: month_of_def date_of_def)
  next
    assume "m = 11" with assms(1,2,3,5) show ?thesis
      by (elim disjE) (simp_all add: month_of_def date_of_def)
  next
    assume "m = 12" with assms(1,2,3,5) show ?thesis
      by (elim disjE) (simp_all add: month_of_def date_of_def)
  qed
  then show "0 \<le> dwy" "dwy < 365 + leap" "month_of leap dwy = m - 1" "date_of leap dwy = d"
    by simp_all
qed

lemma new_Date_ISO_fields:
  assumes "1 \<le> m" "m \<le> 12" "1 \<le> d" "d \<le> DaysInMonth y m"
  shows "YearFromTime (new_Date_ISO y m d) = y"
    and "MonthFromTime (new_Date_ISO y m d) = m - 1"
    and "DateFromTime (new_Date_ISO y m d) = d"
proof -
  define leap :: int where "leap = (if DaysInYear y = 366 then 1 else 0)"
  define dwy where "dwy = days_before_month y (m - 1) + d - 1"
  have m_cases: "m = 1 \<or> m = 2 \<or> m = 3 \<or> m = 4 \<or> m = 5 \<or> m = 6 \<or> m = 7 \<or> m = 8
      \<or> m = 9 \<or> m = 10 \<or> m = 11 \<or> m = 12"
    using assms(1,2) by arith
  have md: "MakeDay y (m - 1) d = DayFromYear y + dwy"
    using assms(1,2) by (simp add: MakeDay_def Let_def dwy_def)
  have day: "Day (new_Date_ISO y m d) = DayFromYear y + dwy"
    by (simp add: new_Date_ISO_def Day_def md msPerDay_def)
  have year_len: "DaysInYear y = 365 + leap"
    by (simp add: leap_def DaysInYear_def)
  have leap: "leap = 0 \<or> leap = 1" by (simp add: leap_def)
  have dim: "d \<le> (if m = 2 then 28 + leap else if m = 4 \<or> m = 6 \<or> m = 9 \<or> m = 11 then 30 else 31)"
    using assms(4) by (auto simp: DaysInMonth_def leap_def split: if_splits)
  have dwy: "dwy = [0, 31, 59, 90, 120, 151, 181, 212, 243, 273, 304, 334] ! nat (m - 1)
            + (if 2 \<le> m - 1 then leap else 0) + d - 1"
    by (simp add: dwy_def days_before_month_def leap_def)
  note t = table_fields [OF leap assms(3) dim m_cases dwy]
  have Y: "YearFromTime (new_Date_ISO y m d) = y"
    unfolding YearFromTime_def day
    by (rule YearFromDay_unique) (use t(1,2) year_len in \<open>simp_all add: DayFromYear_step\<close>)
  then show "YearFromTime (new_Date_ISO y m d) = y" .
  have L: "InLeapYear (new_Date_ISO y m d) = leap"
    by (simp add: InLeapYear_def Y leap_def)
  have W: "DayWithinYear (new_Date_ISO y m d) = dwy"
    by (simp add: DayWithinYear_def Y day)
  show "MonthFromTime (new_Date_ISO y m d) = m - 1"
    by (simp add: MonthFromTime_def L W t(3))
  show "DateFromTime (new_Date_ISO y m d) = d"
    by (simp add: DateFromTime_def L W t(4))
qed

lemma Date_examples:
  "new_Date_ISO 1970 1 1 = 0"
  "new_Date_ISO 1969 12 31 = - 86400000"
  "new_Date_ISO 1994 7 2 = 773107200000"
  "new_Date_ISO 2000 2 29 = 951782400000"
  by code_simp+

section \<open>Rounding to a Number\<close>

declare floor_log2.simps [simp del]

lemma floor_log2_bounds:
  assumes "1 \<le> n"
  shows "0 \<le> floor_log2 n \<and> 2 ^ nat (floor_log2 n) \<le> n \<and> n < 2 * 2 ^ nat (floor_log2 n)"
  using assms
proof (induction n rule: floor_log2.induct)
  case (1 n)
  show ?case
  proof (cases "n < 2")
    case True
    with 1(2) have "n = 1" by simp
    then show ?thesis by (simp add: floor_log2.simps)
  next
    case False
    then have half: "1 \<le> n div 2" by simp
    define k where "k = floor_log2 (n div 2)"
    from 1(1) [OF False half]
    have ih: "0 \<le> k" "2 ^ nat k \<le> n div 2" "n div 2 < 2 * 2 ^ nat k"
      by (simp_all add: k_def)
    have fl: "floor_log2 n = 1 + k"
      using False by (simp add: floor_log2.simps [of n] k_def)
    have nat: "nat (1 + k) = Suc (nat k)" using ih(1) by simp
    have "2 * (n div 2) \<le> n" "n < 2 * (n div 2) + 2" by simp_all
    with ih show ?thesis unfolding fl nat by simp
  qed
qed

lemma floor_log2_powi:
  assumes "1 \<le> n"
  shows "(2::rat) powi floor_log2 n \<le> of_int n" "of_int n < (2::rat) powi (floor_log2 n + 1)"
proof -
  define k where "k = nat (floor_log2 n)"
  from floor_log2_bounds [OF assms]
  have k: "floor_log2 n = int k" and lo: "2 ^ k \<le> n" and hi: "n < 2 * 2 ^ k"
    by (simp_all add: k_def)
  have "(of_int (2 ^ k) :: rat) \<le> of_int n" using lo by (simp only: of_int_le_iff)
  then show "(2::rat) powi floor_log2 n \<le> of_int n" by (simp add: k)
  have "(of_int n :: rat) < of_int (2 * 2 ^ k)" using hi by (simp only: of_int_less_iff)
  moreover have "int k + 1 = int (Suc k)" by simp
  ultimately show "of_int n < (2::rat) powi (floor_log2 n + 1)"
    unfolding k by (simp only: power_int_of_nat) simp
qed


lemma binade_bounds:
  assumes "x \<noteq> 0"
  shows "2 powi binade x \<le> \<bar>x\<bar>" "\<bar>x\<bar> < 2 powi (binade x + 1)"
proof -
  have "2 powi binade x \<le> \<bar>x\<bar> \<and> \<bar>x\<bar> < 2 powi (binade x + 1)"
  proof (cases "1 \<le> \<bar>x\<bar>")
    case True
    define n where "n = \<lfloor>\<bar>x\<bar>\<rfloor>"
    have n1: "1 \<le> n" using True by (simp add: n_def le_floor_iff)
    have b: "binade x = floor_log2 n" using True by (simp add: binade_def n_def)
    have "of_int n \<le> \<bar>x\<bar>" "\<bar>x\<bar> < of_int n + 1"
      using floor_correct [of "\<bar>x\<bar>"] by (simp_all add: n_def)
    moreover have "(of_int n :: rat) + 1 \<le> 2 powi (floor_log2 n + 1)"
    proof -
      define k where "k = nat (floor_log2 n)"
      from floor_log2_bounds [OF n1] have k: "floor_log2 n = int k" and hi: "n + 1 \<le> 2 * 2 ^ k"
        by (simp_all add: k_def)
      have "(of_int (n + 1) :: rat) \<le> of_int (2 * 2 ^ k)" using hi by (simp only: of_int_le_iff)
      moreover have "int k + 1 = int (Suc k)" by simp
      ultimately show ?thesis unfolding k by (simp only: power_int_of_nat) simp
    qed
    ultimately show ?thesis using floor_log2_powi(1) [OF n1] unfolding b by linarith
  next
    case False
    define y where "y = 1 / \<bar>x\<bar>"
    define m where "m = \<lceil>y\<rceil> - 1"
    have xpos: "0 < \<bar>x\<bar>" using assms by simp
    have y1: "1 < y" using False xpos by (simp add: y_def)
    have m1: "1 \<le> m" using y1 by (simp add: m_def less_ceiling_iff)
    have b: "binade x = - (1 + floor_log2 m)"
      using False by (simp add: binade_def m_def y_def)
    have ym: "of_int m < y" "y \<le> of_int m + 1"
      using ceiling_correct [of y] by (simp_all add: m_def)
    define k where "k = floor_log2 m"
    have pk: "(0::rat) < 2 powi k" "(0::rat) < 2 powi (k + 1)" by simp_all
    have upper: "y \<le> 2 powi (k + 1)"
    proof -
      define j where "j = nat k"
      from floor_log2_bounds [OF m1] have j: "k = int j" and hi: "m + 1 \<le> 2 * 2 ^ j"
        by (simp_all add: j_def k_def)
      have "(of_int (m + 1) :: rat) \<le> of_int (2 * 2 ^ j)" using hi by (simp only: of_int_le_iff)
      moreover have "int j + 1 = int (Suc j)" by simp
      ultimately have "(of_int m :: rat) + 1 \<le> 2 powi (k + 1)"
        unfolding j by (simp only: power_int_of_nat) simp
      with ym(2) show ?thesis by linarith
    qed
    have lower: "2 powi k < y"
      using floor_log2_powi(1) [OF m1] ym(1) unfolding k_def by linarith
    have x_eq: "\<bar>x\<bar> = 1 / y" using xpos by (simp add: y_def)
    have ypos: "0 < y" using y1 by simp
    have "2 powi (- (1 + k)) \<le> \<bar>x\<bar>"
    proof -
      have "1 / 2 powi (k + 1) \<le> 1 / y"
        using upper ypos pk(2) by (intro divide_left_mono mult_pos_pos) simp_all
      moreover have "(2::rat) powi (- (1 + k)) = 1 / 2 powi (k + 1)"
        by (simp only: power_int_minus_divide add.commute)
      ultimately show ?thesis
        unfolding x_eq by (simp only:)
    qed
    moreover have "\<bar>x\<bar> < 2 powi (- (1 + k) + 1)"
    proof -
      have "1 / y < 1 / 2 powi k"
        using lower pk(1) ypos by (intro divide_strict_left_mono mult_pos_pos) simp_all
      moreover have "- (1 + k) + 1 = - k" by simp
      ultimately show ?thesis
        unfolding x_eq by (simp only: power_int_minus_divide)
    qed
    ultimately show ?thesis unfolding b k_def by simp
  qed
  then show "2 powi binade x \<le> \<bar>x\<bar>" "\<bar>x\<bar> < 2 powi (binade x + 1)" by simp_all
qed

lemma binade_minus: "binade (- x) = binade x"
  by (simp add: binade_def)

lemma binade_le:
  assumes "x \<noteq> 0" "\<bar>x\<bar> < 2 powi e"
  shows "binade x < e"
proof (rule ccontr)
  assume "\<not> binade x < e"
  then have "(2::rat) powi e \<le> 2 powi binade x"
    by (intro power_int_increasing) simp_all
  with binade_bounds(1) [OF assms(1)] assms(2) show False by linarith
qed

lemma binade_ge:
  assumes "x \<noteq> 0" "2 powi e \<le> \<bar>x\<bar>"
  shows "e \<le> binade x"
proof (rule ccontr)
  assume "\<not> e \<le> binade x"
  then have "binade x + 1 \<le> e" by simp
  then have "(2::rat) powi (binade x + 1) \<le> 2 powi e"
    by (intro power_int_increasing) simp_all
  with binade_bounds(2) [OF assms(1)] assms(2) show False by linarith
qed


lemma round_ties_even_of_int: "round_ties_even (of_int n) = n"
  by (simp add: round_ties_even_def)

lemma round_ties_even_cases:
  "round_ties_even x = \<lfloor>x\<rfloor> \<and> x - of_int \<lfloor>x\<rfloor> \<le> 1 / 2
   \<or> round_ties_even x = \<lfloor>x\<rfloor> + 1 \<and> 1 / 2 \<le> x - of_int \<lfloor>x\<rfloor>"
  by (simp add: round_ties_even_def Let_def)

lemma round_ties_even_error: "\<bar>of_int (round_ties_even x) - x\<bar> \<le> 1 / 2"
proof -
  have f: "of_int \<lfloor>x\<rfloor> \<le> x" "x < of_int \<lfloor>x\<rfloor> + 1"
    using floor_correct [of x] by simp_all
  from round_ties_even_cases [of x] show ?thesis
  proof (elim disjE conjE)
    assume "round_ties_even x = \<lfloor>x\<rfloor>" "x - of_int \<lfloor>x\<rfloor> \<le> 1 / 2"
    with f show ?thesis by simp
  next
    assume "round_ties_even x = \<lfloor>x\<rfloor> + 1" "1 / 2 \<le> x - of_int \<lfloor>x\<rfloor>"
    with f show ?thesis by simp
  qed
qed

lemma round_ties_even_nonneg: "0 \<le> x \<Longrightarrow> 0 \<le> round_ties_even x"
  by (auto simp: round_ties_even_def Let_def)

lemma round_ties_even_minus: "round_ties_even (- x) = - round_ties_even x"
proof (cases "x = of_int \<lfloor>x\<rfloor>")
  case True
  have "round_ties_even (- of_int \<lfloor>x\<rfloor>) = - round_ties_even (of_int \<lfloor>x\<rfloor> :: rat)"
    using round_ties_even_of_int [of "\<lfloor>x\<rfloor>"] round_ties_even_of_int [of "- \<lfloor>x\<rfloor>"] by simp
  with True show ?thesis by simp
next
  case False
  define n where "n = \<lfloor>x\<rfloor>"
  have hi: "x < of_int n + 1"
    using floor_correct [of x] by (simp add: n_def)
  have lo: "of_int n < x"
    using False by (auto simp: less_le n_def)
  have fm: "\<lfloor>- x\<rfloor> = - n - 1"
    using lo hi by (intro floor_unique) simp_all
  have fx: "\<lfloor>x\<rfloor> = n" by (simp add: n_def)
  have par: "even (- n - 1) \<longleftrightarrow> odd n" by simp
  show ?thesis
    unfolding round_ties_even_def Let_def fm fx par
    using lo hi by (auto simp: algebra_simps)
qed

lemma fl_zero: "fl 0 = 0"
  by (simp add: fl_def)

lemma fl_minus: "fl (- x) = - fl x"
  by (simp add: fl_def binade_minus round_ties_even_minus Let_def)

lemma fl_nonneg: "0 \<le> x \<Longrightarrow> 0 \<le> fl x"
  by (simp add: fl_def Let_def round_ties_even_nonneg)

lemma fl_abs: "\<bar>fl x\<bar> = fl \<bar>x\<bar>"
  using fl_nonneg [of x] fl_nonneg [of "- x"] by (auto simp: abs_if fl_minus)

text \<open>Within half a unit in the last place.\<close>

lemma fl_error:
  assumes "x \<noteq> 0"
  shows "\<bar>fl x - x\<bar> \<le> 2 powi (binade x - 53)"
proof -
  define u :: rat where "u = 2 powi (binade x - 52)"
  have u: "0 < u" by (simp add: u_def)
  have "fl x - x = (of_int (round_ties_even (x / u)) - x / u) * u"
    using assms u by (simp add: fl_def u_def [symmetric] Let_def algebra_simps)
  then have "\<bar>fl x - x\<bar> = \<bar>of_int (round_ties_even (x / u)) - x / u\<bar> * u"
    using u by (simp add: abs_mult)
  also have "\<dots> \<le> 1 / 2 * u"
    using round_ties_even_error [of "x / u"] u by (intro mult_right_mono) simp_all
  also have "1 / 2 * u = 2 powi (binade x - 53)"
  proof -
    have "(2::rat) powi (m + 1) = 2 powi m * 2" for m
      by (simp add: power_int_add)
    from this [of "binade x - 53"] show ?thesis by (simp add: u_def)
  qed
  finally show ?thesis .
qed

text \<open>A multiple of the unit in the last place is a Number.\<close>

lemma fl_exact:
  assumes "x = of_int k * 2 powi (binade x - 52)"
  shows "fl x = x"
proof (cases "x = 0")
  case True
  then show ?thesis by (simp add: fl_zero)
next
  case False
  define u :: rat where "u = 2 powi (binade x - 52)"
  have u: "u \<noteq> 0" by (simp add: u_def)
  have xu: "x = of_int k * u" using assms by (simp only: u_def)
  have "x / u = of_int k" using u by (subst xu) simp
  then have r: "round_ties_even (x / u) = k" by (simp only: round_ties_even_of_int)
  have "fl x = of_int (round_ties_even (x / u)) * u"
    using False by (simp add: fl_def u_def Let_def)
  also have "\<dots> = x" unfolding r using xu by simp
  finally show ?thesis .
qed

lemma fl_of_int:
  assumes "\<bar>n\<bar> \<le> 2 ^ 53"
  shows "fl (of_int n) = of_int n"
proof (cases "n = 0")
  case True
  then show ?thesis by (simp add: fl_zero)
next
  case False
  define x :: rat where "x = of_int n"
  define e where "e = binade x"
  have x0: "x \<noteq> 0" using False by (simp add: x_def)
  have ax: "\<bar>x\<bar> = of_int \<bar>n\<bar>" by (simp add: x_def)
  have "(of_int \<bar>n\<bar> :: rat) \<le> of_int (2 ^ 53)" using assms by (simp only: of_int_le_iff)
  then have le: "\<bar>x\<bar> \<le> 2 powi 53" by (simp add: ax)
  have "1 \<le> \<bar>n\<bar>" using False by simp
  then have "(of_int 1 :: rat) \<le> of_int \<bar>n\<bar>" by (simp only: of_int_le_iff)
  then have ge: "2 powi 0 \<le> \<bar>x\<bar>" by (simp add: ax)
  have e0: "0 \<le> e" unfolding e_def by (rule binade_ge [OF x0 ge])
  show ?thesis
  proof (cases "\<bar>x\<bar> = 2 powi 53")
    case True
    have "53 \<le> e" unfolding e_def by (rule binade_ge [OF x0]) (simp add: True)
    moreover have "e < 54" unfolding e_def by (rule binade_le [OF x0]) (simp add: True)
    ultimately have e: "e = 53" by simp
    have "x = of_int (n div 2) * 2 powi (binade x - 52)"
    proof -
      have "\<bar>n\<bar> = 2 ^ 53" using True unfolding ax by (simp only: flip: of_int_eq_iff [where ?'a = rat]) simp
      then have "even \<bar>n\<bar>" by simp
      then have "even n" by simp
      then have "n = (n div 2) * 2" by simp
      then have x2: "x = of_int (n div 2) * 2" unfolding x_def by (metis of_int_mult of_int_numeral)
      have "(2::rat) powi (binade x - 52) = 2" using e by (simp add: e_def [symmetric])
      with x2 show ?thesis by (simp only:)
    qed
    then show ?thesis unfolding x_def [symmetric] by (rule fl_exact)
  next
    case False
    with le have "\<bar>x\<bar> < 2 powi 53" by simp
    then have "e < 53" unfolding e_def by (rule binade_le [OF x0])
    then obtain j :: nat where j: "52 - e = int j" using nonneg_int_cases [of "52 - e"] by auto
    have "e - 52 = - int j" using j by simp
    then have "(2::rat) powi (binade x - 52) = 1 / 2 ^ j"
      unfolding e_def [symmetric] by (simp add: power_int_minus_divide)
    moreover have "x = of_int (n * 2 ^ j) * (1 / 2 ^ j)"
      by (simp add: x_def)
    ultimately have "x = of_int (n * 2 ^ j) * 2 powi (binade x - 52)"
      by (simp only:)
    then show ?thesis unfolding x_def [symmetric] by (rule fl_exact)
  qed
qed

text \<open>Known values: a tenth, a third, and the two odd integers after \<open>2\<^sup>5\<^sup>3\<close>.\<close>

lemma Number_examples:
  "fl (1 / 10) = 3602879701896397 / 36028797018963968"
  "fl (1 / 3) = 6004799503160661 / 18014398509481984"
  "fl 9007199254740993 = 9007199254740992"
  "fl 9007199254740995 = 9007199254740996"
  by code_simp+

section \<open>The age of the guest\<close>

lemma age_unfold:
  "age h c =
     (if getMonth h (clock h) < getMonth h (birthDate c)
         \<or> (getMonth h (clock h) = getMonth h (birthDate c)
            \<and> getDate h (clock h) < getDate h (birthDate c))
      then getFullYear h (clock h) - getFullYear h (birthDate c) - 1
      else getFullYear h (clock h) - getFullYear h (birthDate c))"
  by (simp add: age_def Let_def)

text \<open>
  Claim C1. \<^verbatim>\<open>age()\<close> is the algorithm of the specification on the local calendar
  fields of today and of the birth date: the difference of the years, less one exactly
  when (month, day) of today is lexicographically earlier than (month, day) of the birth
  date. Hence a birth date with the month and day of today, \<open>N\<close> years back, gives \<open>N\<close>;
  and when tomorrow (the local day after today) is the \<open>N\<close>-th anniversary, that is, has
  the month and day of the birth date in the year \<open>N\<close> after it, the age is \<open>N - 1\<close>.
  The same holds when the birthday is read as the day after the day that lies \<open>N\<close> years
  before today. The fields are the ones the local getters return.
\<close>

theorem age_spec:
  "age h c =
     spec_age (getFullYear h (clock h), getMonth h (clock h), getDate h (clock h))
       (getFullYear h (birthDate c), getMonth h (birthDate c), getDate h (birthDate c))
   \<and> (\<forall>N. getFullYear h (clock h) = getFullYear h (birthDate c) + N
         \<and> getMonth h (clock h) = getMonth h (birthDate c)
         \<and> getDate h (clock h) = getDate h (birthDate c)
       \<longrightarrow> age h c = N)
   \<and> (\<forall>N tomorrow. Day tomorrow = Day (LocalTime h (clock h)) + 1
         \<and> YearFromTime tomorrow = getFullYear h (birthDate c) + N
         \<and> MonthFromTime tomorrow = getMonth h (birthDate c)
         \<and> DateFromTime tomorrow = getDate h (birthDate c)
       \<longrightarrow> age h c = N - 1)
   \<and> (\<forall>N born_today. YearFromTime born_today + N = getFullYear h (clock h)
         \<and> MonthFromTime born_today = getMonth h (clock h)
         \<and> DateFromTime born_today = getDate h (clock h)
         \<and> Day (LocalTime h (birthDate c)) = Day born_today + 1
       \<longrightarrow> age h c = N - 1)"
proof (intro conjI allI impI)
  show "age h c =
     spec_age (getFullYear h (clock h), getMonth h (clock h), getDate h (clock h))
       (getFullYear h (birthDate c), getMonth h (birthDate c), getDate h (birthDate c))"
    by (auto simp: age_unfold spec_age_def lex_earlier_def Let_def)
next
  fix N
  assume "getFullYear h (clock h) = getFullYear h (birthDate c) + N
         \<and> getMonth h (clock h) = getMonth h (birthDate c)
         \<and> getDate h (clock h) = getDate h (birthDate c)"
  then show "age h c = N" by (simp add: age_unfold)
next
  fix N tomorrow
  assume a: "Day tomorrow = Day (LocalTime h (clock h)) + 1
         \<and> YearFromTime tomorrow = getFullYear h (birthDate c) + N
         \<and> MonthFromTime tomorrow = getMonth h (birthDate c)
         \<and> DateFromTime tomorrow = getDate h (birthDate c)"
  define today where "today = LocalTime h (clock h)"
  have fields: "getFullYear h (clock h) = YearFromTime today"
    "getMonth h (clock h) = MonthFromTime today" "getDate h (clock h) = DateFromTime today"
    by (simp_all add: today_def getFullYear_def getMonth_def getDate_def)
  from a have next_day: "Day tomorrow = Day today + 1" by (simp add: today_def)
  from next_day_year [OF next_day] show "age h c = N - 1"
  proof
    assume same: "YearFromTime tomorrow = YearFromTime today"
    have "Day today < Day tomorrow" using next_day by simp
    from calendar_order [OF this] same
    have "MonthFromTime today < MonthFromTime tomorrow
        \<or> (MonthFromTime today = MonthFromTime tomorrow \<and> DateFromTime today < DateFromTime tomorrow)"
      by simp
    with a same show ?thesis by (simp add: age_unfold fields)
  next
    assume new_year: "YearFromTime tomorrow = YearFromTime today + 1
        \<and> MonthFromTime tomorrow = 0 \<and> DateFromTime tomorrow = 1"
    with a MonthFromTime_range(1) [of today] DateFromTime_ge_1 [of today]
    show ?thesis by (simp add: age_unfold fields)
  qed
next
  fix N born_today
  assume a: "YearFromTime born_today + N = getFullYear h (clock h)
         \<and> MonthFromTime born_today = getMonth h (clock h)
         \<and> DateFromTime born_today = getDate h (clock h)
         \<and> Day (LocalTime h (birthDate c)) = Day born_today + 1"
  define birth where "birth = LocalTime h (birthDate c)"
  have fields: "getFullYear h (birthDate c) = YearFromTime birth"
    "getMonth h (birthDate c) = MonthFromTime birth" "getDate h (birthDate c) = DateFromTime birth"
    by (simp_all add: birth_def getFullYear_def getMonth_def getDate_def)
  from a have next_day: "Day birth = Day born_today + 1" by (simp add: birth_def)
  from next_day_year [OF next_day] show "age h c = N - 1"
  proof
    assume same: "YearFromTime birth = YearFromTime born_today"
    have "Day born_today < Day birth" using next_day by simp
    from calendar_order [OF this] same
    have "MonthFromTime born_today < MonthFromTime birth
        \<or> (MonthFromTime born_today = MonthFromTime birth
           \<and> DateFromTime born_today < DateFromTime birth)"
      by simp
    with a same show ?thesis by (auto simp: age_unfold fields)
  next
    assume new_year: "YearFromTime birth = YearFromTime born_today + 1
        \<and> MonthFromTime birth = 0 \<and> DateFromTime birth = 1"
    have "0 \<le> getMonth h (clock h)" "1 \<le> getDate h (clock h)"
      by (simp_all add: getMonth_def getDate_def MonthFromTime_range(1) DateFromTime_ge_1)
    with a new_year show ?thesis by (auto simp: age_unfold fields)
  qed
qed

theorem age_spec_witness:
  "age (fixed_zone_host 0 (new_Date_ISO 2024 7 2)) motelCustomer = 30
   \<and> age (fixed_zone_host 0 (new_Date_ISO 2024 7 1)) motelCustomer = 29"
proof -
  define hA where "hA = fixed_zone_host 0 (new_Date_ISO 2024 7 2)"
  define hB where "hB = fixed_zone_host 0 (new_Date_ISO 2024 7 1)"
  have a: "getFullYear hA (clock hA) = getFullYear hA (birthDate motelCustomer) + 30
         \<and> getMonth hA (clock hA) = getMonth hA (birthDate motelCustomer)
         \<and> getDate hA (clock hA) = getDate hA (birthDate motelCustomer)"
    unfolding hA_def by code_simp
  have b: "Day (new_Date_ISO 2024 7 2) = Day (LocalTime hB (clock hB)) + 1
         \<and> YearFromTime (new_Date_ISO 2024 7 2) = getFullYear hB (birthDate motelCustomer) + 30
         \<and> MonthFromTime (new_Date_ISO 2024 7 2) = getMonth hB (birthDate motelCustomer)
         \<and> DateFromTime (new_Date_ISO 2024 7 2) = getDate hB (birthDate motelCustomer)"
    unfolding hB_def by code_simp
  have c: "YearFromTime (new_Date_ISO 1994 7 1) + 30 = getFullYear hB (clock hB)
         \<and> MonthFromTime (new_Date_ISO 1994 7 1) = getMonth hB (clock hB)
         \<and> DateFromTime (new_Date_ISO 1994 7 1) = getDate hB (clock hB)
         \<and> Day (LocalTime hB (birthDate motelCustomer)) = Day (new_Date_ISO 1994 7 1) + 1"
    unfolding hB_def by code_simp
  from age_spec [of hA motelCustomer] a have "age hA motelCustomer = 30" by blast
  moreover from age_spec [of hB motelCustomer] b have "age hB motelCustomer = 30 - 1" by blast
  moreover from age_spec [of hB motelCustomer] c have "age hB motelCustomer = 30 - 1" by blast
  ultimately show ?thesis by (simp add: hA_def hB_def)
qed

text \<open>
  Claim C7. Two instants of the clock on the same local calendar day give the same
  age: of the current moment, \<^verbatim>\<open>age()\<close> uses the local day number only.
\<close>

theorem age_time_of_day:
  "Day (LocalTime h now1) = Day (LocalTime h now2)
   \<Longrightarrow> age (h\<lparr>clock := now1\<rparr>) c = age (h\<lparr>clock := now2\<rparr>) c"
  using same_day_same_fields [of "LocalTime h now1" "LocalTime h now2"]
  by (simp add: age_unfold getFullYear_def getMonth_def getDate_def LocalTime_def)

theorem age_time_of_day_witness:
  "Day (LocalTime (fixed_zone_host (- 12600000) 0) 1735702200000)
     = Day (LocalTime (fixed_zone_host (- 12600000) 0) 1735788599999)
   \<and> age (fixed_zone_host (- 12600000) 0 \<lparr>clock := 1735702200000\<rparr>) motelCustomer
     = age (fixed_zone_host (- 12600000) 0 \<lparr>clock := 1735788599999\<rparr>) motelCustomer"
proof -
  have d: "Day (LocalTime (fixed_zone_host (- 12600000) 0) 1735702200000)
     = Day (LocalTime (fixed_zone_host (- 12600000) 0) 1735788599999)"
    by code_simp
  from d age_time_of_day [OF d, of motelCustomer] show ?thesis by simp
qed

text \<open>
  A birth date is later or earlier than today by its calendar day, as the fields are that
  \<^verbatim>\<open>age\<close> reads: an instant of today's local day, before or after the clock, gives 0.
\<close>

lemma age_born_today:
  "Day (LocalTime h (birthDate c)) = Day (LocalTime h (clock h)) \<Longrightarrow> age h c = 0"
  using same_day_same_fields [of "LocalTime h (birthDate c)" "LocalTime h (clock h)"]
  by (simp add: age_unfold getFullYear_def getMonth_def getDate_def)

text \<open>
  Claim C10. A birth date on a local calendar day after today gives a negative age:
  \<^verbatim>\<open>age\<close> is total and nothing clamps its result.
\<close>

theorem age_future_birth_negative:
  "Day (LocalTime h (clock h)) < Day (LocalTime h (birthDate c)) \<Longrightarrow> age h c < 0"
  using calendar_order [of "LocalTime h (clock h)" "LocalTime h (birthDate c)"]
  by (auto simp: age_unfold getFullYear_def getMonth_def getDate_def)

theorem age_future_birth_negative_witness:
  "Day (LocalTime (fixed_zone_host 0 (new_Date_ISO 1994 7 1)) (clock (fixed_zone_host 0 (new_Date_ISO 1994 7 1))))
     < Day (LocalTime (fixed_zone_host 0 (new_Date_ISO 1994 7 1)) (birthDate motelCustomer))
   \<and> age (fixed_zone_host 0 (new_Date_ISO 1994 7 1)) motelCustomer < 0"
proof -
  have d: "Day (LocalTime (fixed_zone_host 0 (new_Date_ISO 1994 7 1)) (clock (fixed_zone_host 0 (new_Date_ISO 1994 7 1))))
     < Day (LocalTime (fixed_zone_host 0 (new_Date_ISO 1994 7 1)) (birthDate motelCustomer))"
    by code_simp
  from d age_future_birth_negative [OF d] show ?thesis by simp
qed

text \<open>
  The fields of the birth date are local as well. The literal \<^verbatim>\<open>new Date("1994-07-02")\<close>
  is UTC midnight; in a zone west of UTC (here three and a half hours) the getters read it
  as the evening of the first of July, and at noon of the first of July 2024 the age is 30.
\<close>

lemma age_west_of_UTC:
  "getMonth (fixed_zone_host (- 12600000) now) (birthDate motelCustomer) = 6"
  "getDate (fixed_zone_host (- 12600000) now) (birthDate motelCustomer) = 1"
  "age (fixed_zone_host (- 12600000) (new_Date_ISO 2024 7 1 + 55800000)) motelCustomer = 30"
  by (simp add: fixed_zone_host_def getMonth_def getDate_def LocalTime_def, code_simp) code_simp+

section \<open>The duration of the stay\<close>

lemma divisor_ms_per_day: "js_mul (js_mul (js_mul 1000 60) 60) 24 = 86400000"
  using fl_of_int [of 60000] fl_of_int [of 3600000] fl_of_int [of 86400000]
  by (simp add: js_mul_def)

lemma durationOfStay_unfold:
  "durationOfStay c = \<lceil>fl (\<bar>fl (of_int (checkOutDate c - checkInDate c))\<bar> / 86400000)\<rceil>"
  by (simp add: durationOfStay_def Let_def divisor_ms_per_day js_sub_def js_div_def
      Math_abs_def Math_ceil_def getTime_def)

text \<open>
  Up to \<open>2\<^sup>5\<^sup>3\<close> milliseconds the quotient by the milliseconds of a day is rounded by
  less than one part in 86400000, so its ceiling is the exact one.
\<close>

lemma ceiling_fl_quotient:
  assumes "0 \<le> d" "d \<le> 2 ^ 53"
  shows "\<lceil>fl (of_int d / 86400000)\<rceil> = \<lceil>(of_int d / 86400000 :: rat)\<rceil>"
proof (cases "d = 0")
  case True
  then show ?thesis by (simp add: fl_zero)
next
  case False
  define q :: rat where "q = of_int d / 86400000"
  define k where "k = \<lceil>q\<rceil>"
  have dpos: "0 < d" using False assms(1) by simp
  then have qpos: "0 < q" by (simp add: q_def)
  have q_le: "q \<le> of_int d" using assms(1) by (simp add: q_def)
  have "(of_int d :: rat) \<le> of_int (2 ^ 53)" using assms(2) by (simp only: of_int_le_iff)
  then have d53: "(of_int d :: rat) \<le> 9007199254740992" by simp
  have kq: "of_int k - 1 < q" "q \<le> of_int k"
    using ceiling_correct [of q] by (simp_all add: k_def)
  show ?thesis
  proof (cases "q = of_int k")
    case True
    have "0 \<le> k" using qpos True by simp
    moreover have "(of_int k :: rat) \<le> of_int (2 ^ 53)" using True q_le d53 by simp
    then have "k \<le> 2 ^ 53" by (simp only: of_int_le_iff)
    ultimately have "fl (of_int k) = of_int k" by (intro fl_of_int) simp
    then show ?thesis unfolding q_def [symmetric] True by simp
  next
    case False
    with kq(2) have q_lt: "q < of_int k" by simp
    have "of_int (86400000 * (k - 1)) < (of_int d :: rat)"
      using kq(1) by (simp add: q_def field_simps)
    then have "86400000 * (k - 1) + 1 \<le> d" by (simp only: of_int_less_iff)
    then have "(of_int (86400000 * (k - 1) + 1) :: rat) \<le> of_int d" by (simp only: of_int_le_iff)
    then have lo: "of_int k - 1 + 1 / 86400000 \<le> q" by (simp add: q_def field_simps)
    have "(of_int d :: rat) < of_int (86400000 * k)"
      using q_lt by (simp add: q_def field_simps)
    then have "d + 1 \<le> 86400000 * k" by (simp only: of_int_less_iff)
    then have "(of_int (d + 1) :: rat) \<le> of_int (86400000 * k)" by (simp only: of_int_le_iff)
    then have hi: "q \<le> of_int k - 1 / 86400000" by (simp add: q_def field_simps)
    have q0: "q \<noteq> 0" using qpos by simp
    have "\<bar>q\<bar> < 2 powi 27" using qpos d53 by (simp add: q_def)
    then have "binade q < 27" by (rule binade_le [OF q0])
    then have "(2::rat) powi (binade q - 53) \<le> 2 powi (- 27)"
      by (intro power_int_increasing) simp_all
    with fl_error [OF q0] have "\<bar>fl q - q\<bar> \<le> 1 / 134217728"
      by (simp add: power_int_minus_divide)
    then have "q - 1 / 134217728 \<le> fl q" "fl q \<le> q + 1 / 134217728" by linarith+
    with lo hi have "of_int k - 1 < fl q" "fl q \<le> of_int k" by simp_all
    then have "\<lceil>fl q\<rceil> = k" by (rule ceiling_unique)
    then show ?thesis by (simp add: q_def k_def)
  qed
qed

lemma durationOfStay_exact:
  assumes "\<bar>checkOutDate c - checkInDate c\<bar> \<le> 2 ^ 53"
  shows "durationOfStay c = spec_days (checkInDate c) (checkOutDate c)"
proof -
  define z where "z = checkOutDate c - checkInDate c"
  have "fl (of_int z) = of_int z" using assms unfolding z_def by (rule fl_of_int)
  then have "durationOfStay c = \<lceil>fl (of_int \<bar>z\<bar> / 86400000)\<rceil>"
    by (simp add: durationOfStay_unfold z_def)
  also have "\<dots> = \<lceil>(of_int \<bar>z\<bar> / 86400000 :: rat)\<rceil>"
    using assms by (intro ceiling_fl_quotient) (simp_all add: z_def)
  finally show ?thesis by (simp add: spec_days_def z_def msPerDay_def)
qed

lemma stay_dates:
  "new_Date_ISO 2024 4 1 = 1711929600000" "new_Date_ISO 2024 4 15 = 1713139200000"
  by code_simp+

text \<open>
  Claim C2, as stated, fails. From the first valid date, time value -8640000000000000, to
  the date of time value 367199308800001 there are 9007199308800001 milliseconds, an odd
  number above \<open>2\<^sup>5\<^sup>3\<close> = 9007199254740992 and so not a Number: the subtraction
  rounds it to 9007199308800000, which is 104249992 days exactly, while the exact ceiling
  is 104249993.
\<close>

theorem durationOfStay_ceiling_counterexample:
  "valid_time (- 8640000000000000) \<and> valid_time 367199308800001
   \<and> durationOfStay (motelCustomer\<lparr>checkInDate := - 8640000000000000,
                                    checkOutDate := 367199308800001\<rparr>) = 104249992
   \<and> spec_days (- 8640000000000000) 367199308800001 = 104249993
   \<and> durationOfStay (motelCustomer\<lparr>checkInDate := - 8640000000000000,
                                    checkOutDate := 367199308800001\<rparr>)
       \<noteq> spec_days (- 8640000000000000) 367199308800001"
  by code_simp

text \<open>
  Claim C2, amended. For dates at most \<open>2\<^sup>5\<^sup>3\<close> milliseconds apart,
  \<^verbatim>\<open>durationOfStay()\<close> is the ceiling of the absolute difference in milliseconds over
  the milliseconds of a day; from 2024-04-01 to 2024-04-15 it is 14, and for equal dates
  it is 0.
\<close>

theorem durationOfStay_ceiling:
  "(\<bar>checkOutDate c - checkInDate c\<bar> \<le> 2 ^ 53
      \<longrightarrow> durationOfStay c = spec_days (checkInDate c) (checkOutDate c))
   \<and> durationOfStay (c\<lparr>checkInDate := new_Date_ISO 2024 4 1,
                        checkOutDate := new_Date_ISO 2024 4 15\<rparr>) = 14
   \<and> durationOfStay (c\<lparr>checkInDate := d, checkOutDate := d\<rparr>) = 0"
proof (intro conjI impI)
  assume "\<bar>checkOutDate c - checkInDate c\<bar> \<le> 2 ^ 53"
  then show "durationOfStay c = spec_days (checkInDate c) (checkOutDate c)"
    by (rule durationOfStay_exact)
next
  show "durationOfStay (c\<lparr>checkInDate := new_Date_ISO 2024 4 1,
                         checkOutDate := new_Date_ISO 2024 4 15\<rparr>) = 14"
    using durationOfStay_exact
      [of "c\<lparr>checkInDate := new_Date_ISO 2024 4 1, checkOutDate := new_Date_ISO 2024 4 15\<rparr>"]
    by (simp add: stay_dates spec_days_def msPerDay_def)
next
  show "durationOfStay (c\<lparr>checkInDate := d, checkOutDate := d\<rparr>) = 0"
    by (simp add: durationOfStay_unfold fl_zero)
qed

theorem durationOfStay_ceiling_witness:
  "\<bar>checkOutDate motelCustomer - checkInDate motelCustomer\<bar> \<le> 2 ^ 53
   \<and> durationOfStay motelCustomer
       = spec_days (checkInDate motelCustomer) (checkOutDate motelCustomer)
   \<and> spec_days (checkInDate motelCustomer) (checkOutDate motelCustomer) = 14"
proof -
  have near: "\<bar>checkOutDate motelCustomer - checkInDate motelCustomer\<bar> \<le> 2 ^ 53"
    by (simp add: motelCustomer_def stay_dates)
  have days: "spec_days (checkInDate motelCustomer) (checkOutDate motelCustomer) = 14"
    by (simp add: motelCustomer_def stay_dates spec_days_def msPerDay_def)
  from durationOfStay_ceiling [of motelCustomer] near days show ?thesis by blast
qed

text \<open>
  Claim C4. Swapping the check-in and the check-out date leaves
  \<^verbatim>\<open>durationOfStay()\<close> as it is, for every pair of dates: the rounded difference
  only changes its sign.
\<close>

theorem durationOfStay_symmetric:
  "durationOfStay (c\<lparr>checkInDate := a, checkOutDate := b\<rparr>)
     = durationOfStay (c\<lparr>checkInDate := b, checkOutDate := a\<rparr>)"
proof -
  have "fl (of_int (b - a)) = - fl (of_int (a - b))"
    using fl_minus [of "of_int (a - b)"] by simp
  then show ?thesis by (simp add: durationOfStay_unfold)
qed

text \<open>
  Claim C5. \<^verbatim>\<open>durationOfStay()\<close> has no error path: it is a total function of the two
  dates, and its result is never negative, whichever date is the earlier; with the dates
  of the script inverted it is 14 again.
\<close>

theorem durationOfStay_nonneg:
  "0 \<le> durationOfStay c
   \<and> durationOfStay (c\<lparr>checkInDate := new_Date_ISO 2024 4 15,
                        checkOutDate := new_Date_ISO 2024 4 1\<rparr>) = 14"
proof
  have "0 \<le> fl (\<bar>fl (of_int (checkOutDate c - checkInDate c))\<bar> / 86400000)"
    by (rule fl_nonneg) simp
  then show "0 \<le> durationOfStay c" by (simp add: durationOfStay_unfold)
next
  show "durationOfStay (c\<lparr>checkInDate := new_Date_ISO 2024 4 15,
                         checkOutDate := new_Date_ISO 2024 4 1\<rparr>) = 14"
    using durationOfStay_exact
      [of "c\<lparr>checkInDate := new_Date_ISO 2024 4 15, checkOutDate := new_Date_ISO 2024 4 1\<rparr>"]
    by (simp add: stay_dates spec_days_def msPerDay_def)
qed

section \<open>The mailing address\<close>

text \<open>
  Claim C6. \<^verbatim>\<open>toString\<close> of the mailing address renders the template
  \<open>{street}, {city}, {postalCode}\<close>; on the address of the script it is
  \<open>123 Duck St, St. John's, A5A 1A3\<close>.
\<close>

theorem mailingAddress_toString:
  "toString a
     = fill [(''street'', street a), (''city'', city a), (''postalCode'', postalCode a)]
         ''{street}, {city}, {postalCode}''
   \<and> toString \<lparr> street = ''123 Duck St'', city = ''St. John's'', postalCode = ''A5A 1A3'' \<rparr>
     = ''123 Duck St, St. John's, A5A 1A3''"
  by (simp add: toString_def lookup_field_def)

section \<open>The description\<close>

lemma customerDescription_fill:
  "customerDescription h c
     = fill [(''name'', name c),
             (''age'', Number_toString (age h c)),
             (''gender'', gender c),
             (''prefs'', join '' and '' (roomPreferences c)),
             (''phone'', phoneNumber c),
             (''address'', toString (mailingAddress c)),
             (''checkIn'', toLocaleDateString h (checkInDate c)),
             (''checkOut'', toLocaleDateString h (checkOutDate c)),
             (''duration'', Number_toString (durationOfStay c))]
         spec_template"
  by (simp add: customerDescription_def spec_template_def lookup_field_def)

lemma birthDate_value: "birthDate motelCustomer = 8948 * msPerDay"
  by code_simp

lemma birth_day_fields:
  "YearFromTime (8947 * msPerDay) = 1994 \<and> MonthFromTime (8947 * msPerDay) = 6
   \<and> YearFromTime (8948 * msPerDay) = 1994 \<and> MonthFromTime (8948 * msPerDay) = 6"
  by code_simp

lemma birthDate_local_fields:
  assumes "\<bar>LocalTZA h (birthDate motelCustomer)\<bar> < msPerDay"
  shows "getFullYear h (birthDate motelCustomer) = 1994"
    and "getMonth h (birthDate motelCustomer) = 6"
proof -
  define off where "off = LocalTZA h (birthDate motelCustomer)"
  define t where "t = LocalTime h (birthDate motelCustomer)"
  have t: "t = 8948 * msPerDay + off"
    by (simp add: t_def LocalTime_def off_def birthDate_value)
  have off: "- msPerDay < off" "off < msPerDay" using assms by (simp_all add: off_def abs_less_iff)
  have "Day t = 8947 \<or> Day t = 8948"
  proof (cases "off < 0")
    case True
    have "Day t = 8947"
      unfolding Day_def t
      by (rule int_div_pos_eq [where r = "off + msPerDay"]) (use True off in \<open>simp_all add: msPerDay_def\<close>)
    then show ?thesis by simp
  next
    case False
    have "Day t = 8948"
      unfolding Day_def t
      by (rule int_div_pos_eq [where r = off]) (use False off in \<open>simp_all add: msPerDay_def\<close>)
    then show ?thesis by simp
  qed
  moreover have "Day (8947 * msPerDay) = 8947" "Day (8948 * msPerDay) = 8948"
    by (simp_all add: Day_def msPerDay_def)
  ultimately have "Day t = Day (8947 * msPerDay) \<or> Day t = Day (8948 * msPerDay)" by simp
  then have "YearFromTime t = 1994 \<and> MonthFromTime t = 6"
    using same_day_same_fields(1,2) [of t "8947 * msPerDay"]
      same_day_same_fields(1,2) [of t "8948 * msPerDay"] birth_day_fields
    by auto
  then show "getFullYear h (birthDate motelCustomer) = 1994"
    and "getMonth h (birthDate motelCustomer) = 6"
    by (simp_all add: getFullYear_def getMonth_def t_def)
qed

lemma numerals_shown: "Number_toString 30 = ''30''" "Number_toString 14 = ''14''"
  by code_simp+

lemma motelCustomer_stay: "durationOfStay motelCustomer = 14"
  using durationOfStay_exact [of motelCustomer]
  by (simp add: motelCustomer_def stay_dates spec_days_def msPerDay_def)

lemma description_2025:
  assumes "getFullYear h (clock h) = 2025" "getMonth h (clock h) = 0"
    and "\<bar>LocalTZA h (birthDate motelCustomer)\<bar> < msPerDay"
  shows "customerDescription h motelCustomer
    = ''Hello! I'm Steven Norris, ''
      @ ''a 30 year old Male who prefers rooms with Double Bed and Pet-Friendly Status''
      @ ''. You can reach me at 709-987-6543. My mailing address is 123 Duck St, St. John's, A5A 1A3. I'll be staying from ''
      @ toLocaleDateString h (checkInDate motelCustomer) @ '' to ''
      @ toLocaleDateString h (checkOutDate motelCustomer) @ '', which is a ''
      @ ''duration of 14 days.''"
proof -
  have "age h motelCustomer = 30"
    using assms(1,2) birthDate_local_fields [OF assms(3)] by (simp add: age_unfold)
  then show ?thesis
    by (simp add: customerDescription_def numerals_shown motelCustomer_stay toString_def)
       (simp add: motelCustomer_def)
qed


text \<open>
  Claim C3. The description is the template of the specification, each placeholder
  replaced by its field and the room preferences joined with \<open>'' and ''\<close>. For the guest
  of the script, on a host whose local date is 2025-01-01 (and whose zone is less than a
  day from UTC, as every zone is), it contains
  \<open>a 30 year old Male who prefers rooms with Double Bed and Pet-Friendly Status\<close> and
  ends with \<open>duration of 14 days.\<close>
\<close>

theorem customerDescription_template:
  "customerDescription h c
     = fill [(''name'', name c),
             (''age'', Number_toString (age h c)),
             (''gender'', gender c),
             (''prefs'', join '' and '' (roomPreferences c)),
             (''phone'', phoneNumber c),
             (''address'', toString (mailingAddress c)),
             (''checkIn'', toLocaleDateString h (checkInDate c)),
             (''checkOut'', toLocaleDateString h (checkOutDate c)),
             (''duration'', Number_toString (durationOfStay c))]
         spec_template
   \<and> (getFullYear h (clock h) = 2025 \<and> getMonth h (clock h) = 0 \<and> getDate h (clock h) = 1
        \<and> \<bar>LocalTZA h (birthDate motelCustomer)\<bar> < msPerDay
      \<longrightarrow> sublist ''a 30 year old Male who prefers rooms with Double Bed and Pet-Friendly Status''
            (customerDescription h motelCustomer)
          \<and> suffix ''duration of 14 days.'' (customerDescription h motelCustomer))"
proof (intro conjI impI)
  show "customerDescription h c
     = fill [(''name'', name c),
             (''age'', Number_toString (age h c)),
             (''gender'', gender c),
             (''prefs'', join '' and '' (roomPreferences c)),
             (''phone'', phoneNumber c),
             (''address'', toString (mailingAddress c)),
             (''checkIn'', toLocaleDateString h (checkInDate c)),
             (''checkOut'', toLocaleDateString h (checkOutDate c)),
             (''duration'', Number_toString (durationOfStay c))]
         spec_template"
    by (rule customerDescription_fill)
next
  assume today: "getFullYear h (clock h) = 2025 \<and> getMonth h (clock h) = 0
    \<and> getDate h (clock h) = 1 \<and> \<bar>LocalTZA h (birthDate motelCustomer)\<bar> < msPerDay"
  then have d: "customerDescription h motelCustomer
    = ''Hello! I'm Steven Norris, ''
      @ ''a 30 year old Male who prefers rooms with Double Bed and Pet-Friendly Status''
      @ ''. You can reach me at 709-987-6543. My mailing address is 123 Duck St, St. John's, A5A 1A3. I'll be staying from ''
      @ toLocaleDateString h (checkInDate motelCustomer) @ '' to ''
      @ toLocaleDateString h (checkOutDate motelCustomer) @ '', which is a ''
      @ ''duration of 14 days.''"
    by (intro description_2025) simp_all
  show "sublist ''a 30 year old Male who prefers rooms with Double Bed and Pet-Friendly Status''
      (customerDescription h motelCustomer)"
    unfolding d by (rule sublist_appendI)
  show "suffix ''duration of 14 days.'' (customerDescription h motelCustomer)"
    unfolding d suffix_def
    by (rule exI [of _ "''Hello! I'm Steven Norris, ''
      @ ''a 30 year old Male who prefers rooms with Double Bed and Pet-Friendly Status''
      @ ''. You can reach me at 709-987-6543. My mailing address is 123 Duck St, St. John's, A5A 1A3. I'll be staying from ''
      @ toLocaleDateString h (checkInDate motelCustomer) @ '' to ''
      @ toLocaleDateString h (checkOutDate motelCustomer) @ '', which is a ''"])
      (simp only: append_assoc)
qed

theorem customerDescription_template_witness:
  "getFullYear (fixed_zone_host (- 12600000) 1735702200000) 1735702200000 = 2025
   \<and> getMonth (fixed_zone_host (- 12600000) 1735702200000) 1735702200000 = 0
   \<and> getDate (fixed_zone_host (- 12600000) 1735702200000) 1735702200000 = 1
   \<and> sublist ''a 30 year old Male who prefers rooms with Double Bed and Pet-Friendly Status''
        (customerDescription (fixed_zone_host (- 12600000) 1735702200000) motelCustomer)
   \<and> suffix ''duration of 14 days.''
        (customerDescription (fixed_zone_host (- 12600000) 1735702200000) motelCustomer)"
proof -
  define h where "h = fixed_zone_host (- 12600000) 1735702200000"
  have clock: "clock h = 1735702200000" by (simp add: h_def fixed_zone_host_def)
  have today: "getFullYear h 1735702200000 = 2025 \<and> getMonth h 1735702200000 = 0
      \<and> getDate h 1735702200000 = 1"
    unfolding h_def by code_simp
  have zone: "\<bar>LocalTZA h (birthDate motelCustomer)\<bar> < msPerDay"
    by (simp add: h_def fixed_zone_host_def msPerDay_def)
  from customerDescription_template [of h motelCustomer] today zone
  show ?thesis unfolding clock h_def [symmetric] by blast
qed

section \<open>The script\<close>

text \<open>
  What each step does to the state. A read leaves the state as it is; an assignment to a
  property changes the object. Each call returns the value of the function of its name,
  in the state it was made in.
\<close>

lemma run_read_customer: "run_state (read_customer field) s = (field (customer s), s)"
  by (simp add: read_customer_def)

lemma run_read_address:
  "run_state (read_address field) s = (field (mailingAddress (customer s)), s)"
  by (simp add: read_address_def run_read_customer)

lemma run_assign_customer:
  "run_state (assign_customer change) s = ((), s\<lparr> customer := change (customer s) \<rparr>)"
  by (simp add: assign_customer_def State_Monad.update_def)

lemma run_toString_call:
  "run_state toString_call s = (toString (mailingAddress (customer s)), s)"
  by (simp add: toString_call_def run_read_address toString_def)

lemma run_age_call: "run_state (age_call h) s = (age h (customer s), s)"
  by (simp add: age_call_def age_def run_read_customer Let_def)

lemma run_durationOfStay_call:
  "run_state durationOfStay_call s = (durationOfStay (customer s), s)"
  by (simp add: durationOfStay_call_def durationOfStay_def run_read_customer Let_def)

lemma run_customerDescription_eval:
  "run_state (customerDescription_eval h) s = (customerDescription h (customer s), s)"
  by (simp add: customerDescription_eval_def customerDescription_def run_read_customer
      run_age_call run_toString_call run_durationOfStay_call)

lemma assignment_is_seen:
  "name (customer s) \<noteq> v
   \<Longrightarrow> customer (snd (run_state (assign_customer (\<lambda>c. c\<lparr> name := v \<rparr>)) s)) \<noteq> customer s"
  by (auto simp: run_assign_customer dest: arg_cong [where f = name])

lemma script_unfold:
  "script h console0 page0 =
     (if page0 ''customerInfo'' \<noteq> None
      then (None,
            \<lparr> customer = motelCustomer,
              console = console0 @ [customerDescription h motelCustomer],
              elements = page0(''customerInfo'' \<mapsto> customerDescription h motelCustomer) \<rparr>)
      else (Some TypeError,
            \<lparr> customer = motelCustomer,
              console = console0 @ [customerDescription h motelCustomer],
              elements = page0 \<rparr>))"
  by (auto simp: script_def run_customerDescription_eval console_log_def getElementById_def
      set_textContent_def Let_def)

text \<open>
  Claim C8. No step of the script reassigns a field of the guest record or of its
  mailing address: the calls of \<^verbatim>\<open>age()\<close>, \<^verbatim>\<open>durationOfStay()\<close> and
  \<^verbatim>\<open>toString()\<close>, the evaluation of the template literal, \<^verbatim>\<open>console.log\<close> and the
  assignment of \<^verbatim>\<open>textContent\<close> each leave the record in the state as they found it;
  so the record at the end of the script, thrown error or not, is the literal one.
\<close>

theorem customer_never_reassigned:
  "customer (snd (run_state (age_call h) s)) = customer s
   \<and> customer (snd (run_state durationOfStay_call s)) = customer s
   \<and> customer (snd (run_state toString_call s)) = customer s
   \<and> customer (snd (run_state (customerDescription_eval h) s)) = customer s
   \<and> customer (console_log line s) = customer s
   \<and> (\<forall>s'. set_textContent el v s = Inr s' \<longrightarrow> customer s' = customer s)
   \<and> customer (snd (script h console0 page0)) = motelCustomer"
proof (intro conjI allI impI)
  show "customer (snd (run_state (age_call h) s)) = customer s"
    by (simp add: run_age_call)
  show "customer (snd (run_state durationOfStay_call s)) = customer s"
    by (simp add: run_durationOfStay_call)
  show "customer (snd (run_state toString_call s)) = customer s"
    by (simp add: run_toString_call)
  show "customer (snd (run_state (customerDescription_eval h) s)) = customer s"
    by (simp add: run_customerDescription_eval)
  show "customer (console_log line s) = customer s"
    by (simp add: console_log_def)
  show "customer (snd (script h console0 page0)) = motelCustomer"
    by (simp add: script_unfold)
next
  fix s'
  assume "set_textContent el v s = Inr s'"
  then show "customer s' = customer s"
    by (auto simp: set_textContent_def split: option.splits)
qed

theorem customer_never_reassigned_witness:
  "customer (snd (run_state (age_call (fixed_zone_host 0 0))
       \<lparr> customer = motelCustomer, console = [], elements = [''customerInfo'' \<mapsto> ''old''] \<rparr>))
     = motelCustomer
   \<and> customer (snd (run_state (customerDescription_eval (fixed_zone_host 0 0))
       \<lparr> customer = motelCustomer, console = [], elements = [''customerInfo'' \<mapsto> ''old''] \<rparr>))
     = motelCustomer
   \<and> set_textContent (Some ''customerInfo'') ''text''
       \<lparr> customer = motelCustomer, console = [], elements = [''customerInfo'' \<mapsto> ''old''] \<rparr>
     = Inr \<lparr> customer = motelCustomer, console = [],
             elements = [''customerInfo'' \<mapsto> ''text''] \<rparr>
   \<and> customer \<lparr> customer = motelCustomer, console = [],
                elements = [''customerInfo'' \<mapsto> ''text''] \<rparr>
     = motelCustomer"
proof -
  define s0 where
    "s0 = \<lparr> customer = motelCustomer, console = [], elements = [''customerInfo'' \<mapsto> ''old''] \<rparr>"
  have guest: "customer s0 = motelCustomer" by (simp add: s0_def)
  have run: "set_textContent (Some ''customerInfo'') ''text'' s0
     = Inr \<lparr> customer = motelCustomer, console = [],
             elements = [''customerInfo'' \<mapsto> ''text''] \<rparr>"
    by (simp add: set_textContent_def s0_def)
  from customer_never_reassigned
    [where h = "fixed_zone_host 0 0" and s = s0 and el = "Some ''customerInfo''" and v = "''text''"]
    run guest
  show ?thesis unfolding s0_def [symmetric] by auto
qed

text \<open>
  Claim C9. The console write comes first: whatever the page, the console ends with the
  description appended; without an element \<open>customerInfo\<close> the script then ends in a
  \<^verbatim>\<open>TypeError\<close> and the page is untouched.
\<close>

theorem console_written_before_lookup:
  "console (snd (script h console0 page0)) = console0 @ [customerDescription h motelCustomer]
   \<and> fst (script h console0 page0)
       = (if page0 ''customerInfo'' = None then Some TypeError else None)
   \<and> elements (snd (script h console0 page0))
       = (if page0 ''customerInfo'' = None then page0
          else page0(''customerInfo'' \<mapsto> customerDescription h motelCustomer))"
  by (simp add: script_unfold)

theorem console_written_before_lookup_witness:
  "fst (script (fixed_zone_host 0 0) [] Map.empty) = Some TypeError
   \<and> console (snd (script (fixed_zone_host 0 0) [] Map.empty))
       = [customerDescription (fixed_zone_host 0 0) motelCustomer]"
  using console_written_before_lookup [of "fixed_zone_host 0 0" "[]" Map.empty]
  by simp

end
